theory Spec2Isabelle
  imports Main "HOL-Library.Sublist"
begin

section \<open>Data model of DB.py\<close>

text \<open>
  The objects the partitioner hands to \<open>PDFLoader\<close>. The source distinguishes kinds only
  by searching the printed runtime type (\<open>str(type(chunk))\<close>) for a substring, so a chunk
  carries that printed type as a string. \<open>chunk_text\<close> is \<open>str(chunk)\<close>, the text that the
  summarisation prompt interpolates. \<open>orig_elements\<close> is \<open>chunk.metadata.orig_elements\<close>
  (the list the partitioner attaches to the chunks it builds) and \<open>image_base64\<close> is
  \<open>el.metadata.image_base64\<close> (an optional string).
\<close>

record element =
  el_type :: string
  image_base64 :: "string option"

record chunk =
  type_name :: string
  chunk_text :: string
  orig_elements :: "element list"

text \<open>
  The document store holds the original objects: chunk objects for texts and tables, the
  base64 payload for images.
\<close>

datatype content = Chunk chunk | ImageB64 "string option"

text \<open>
  \<open>Document(page_content=summary, metadata={self.id_key: id})\<close> with
  \<open>self.id_key = "doc_id"\<close>: the metadata dictionary has this single key, which is the
  field \<open>doc_id\<close>.
\<close>

record document =
  page_content :: string
  doc_id :: string

datatype error = ValueError string | IndexError

text \<open>
  Calls that leave the process, in the order they happen: the partitioner, the two chat
  models and \<open>time.sleep\<close> (milliseconds). \<open>uuid_drawn\<close> counts the calls of
  \<open>uuid.uuid4()\<close> made so far. \<open>ref_rag\<close> is the content of the vector-store collection
  named \<open>ref-rag\<close>: \<open>Chroma(collection_name="ref-rag", ...)\<close> is given no storage
  directory, so the collection lives in the process and every loader constructed in the
  process opens the same one. It is empty when the process starts.
\<close>

datatype event =
  Partition string
  | InvokeText string
  | InvokeVision string
  | Sleep nat

record world =
  uuid_drawn :: nat
  trace :: "event list"
  ref_rag :: "document list"

text \<open>
  The external collaborators. \<open>uuid4 n\<close> is the string of the \<open>n\<close>-th identifier that
  \<open>uuid.uuid4()\<close> returns to DB.py (draws made by other code are not counted); the
  chat models map the prompt to \<open>result.content\<close>. A chat model is taken as a function
  of its prompt: no statement below depends on what it returns. Failures of the
  collaborators themselves (a missing file, a network error) are not modelled, with one
  exception: the vector store refuses an empty batch with a \<open>ValueError\<close>, whose message
  is \<open>empty_batch_msg\<close>.
\<close>

record services =
  uuid4 :: "nat \<Rightarrow> string"
  partition_pdf :: "string \<Rightarrow> chunk list"
  text_llm :: "string \<Rightarrow> string"
  vision_llm :: "string \<Rightarrow> string"
  empty_batch_msg :: string

text \<open>
  The attributes of a \<open>PDFLoader\<close> object that hold data. The model clients and the
  retriever, which only wraps the two stores, are left out; an attribute that the
  constructor has not assigned yet is the empty list. \<open>self.vDB\<close> is a handle on the
  collection \<open>ref_rag\<close> of the process; \<open>self.docDB\<close> is an \<open>InMemoryStore\<close> of the
  loader's own.
\<close>

record PDFLoader =
  pdf_path :: string
  chunks :: "chunk list"
  texts :: "chunk list"
  tables :: "chunk list"
  images :: "string option list"
  text_summaries :: "string list"
  table_summaries :: "string list"
  image_summaries :: "string list"
  docDB :: "string \<rightharpoonup> content"

section \<open>Partition filters\<close>

text \<open>Python's \<open>needle in haystack\<close> on strings.\<close>

definition py_in :: "string \<Rightarrow> string \<Rightarrow> bool" where
  "py_in needle haystack = sublist needle haystack"

text \<open>The loop of \<open>get_text_tables\<close>: two independent \<open>if\<close>s per chunk.\<close>

fun get_text_tables_loop ::
  "chunk list \<Rightarrow> chunk list \<Rightarrow> chunk list \<Rightarrow> chunk list \<times> chunk list" where
  "get_text_tables_loop [] tbls txts = (txts, tbls)"
| "get_text_tables_loop (c # cs) tbls txts =
     (let tbls' = (if py_in ''Table'' (type_name c) then tbls @ [c] else tbls);
          txts' = (if py_in ''CompositeElement'' (type_name c) then txts @ [c] else txts)
      in get_text_tables_loop cs tbls' txts')"

definition get_text_tables :: "chunk list \<Rightarrow> chunk list \<times> chunk list" where
  "get_text_tables cs = get_text_tables_loop cs [] []"

text \<open>The inner and outer loops of \<open>get_imagesb64\<close>.\<close>

fun get_images_inner :: "element list \<Rightarrow> string option list \<Rightarrow> string option list" where
  "get_images_inner [] image_b64 = image_b64"
| "get_images_inner (el # els) image_b64 =
     get_images_inner els
       (if py_in ''Image'' (el_type el) then image_b64 @ [image_base64 el] else image_b64)"

fun get_images_loop :: "chunk list \<Rightarrow> string option list \<Rightarrow> string option list" where
  "get_images_loop [] image_b64 = image_b64"
| "get_images_loop (c # cs) image_b64 =
     get_images_loop cs
       (if py_in ''CompositeElement'' (type_name c)
        then get_images_inner (orig_elements c) image_b64 else image_b64)"

definition get_imagesb64 :: "chunk list \<Rightarrow> string option list" where
  "get_imagesb64 cs = get_images_loop cs []"

section \<open>Summarisation\<close>

definition nl :: string where
  "nl = [CHR 0x0A]"

definition indent :: string where
  "indent = replicate 12 (CHR '' '')"

text \<open>The f-string of \<open>create_summary\<close>, the same in both loops.\<close>

definition prompt_text :: "chunk \<Rightarrow> string" where
  "prompt_text e =
     nl @ indent @ ''You are an assistant tasked with summarizing tables and text.''
     @ nl @ indent @ ''Give a concise summary of the tables or text.''
     @ nl
     @ nl @ indent @ ''Respond with only summary, no additional comment.''
     @ nl @ indent @ ''Do not start your message by saying '' @ [CHR 0x22]
        @ ''Here is a summary'' @ [CHR 0x22] @ '' or anything like that.''
     @ nl @ indent @ ''Just provide the summary as it is.''
     @ nl
     @ nl @ indent @ ''Table or text chunk: '' @ chunk_text e
     @ nl @ indent"

text \<open>
  First loop of \<open>create_summary\<close>: the counter is incremented, the process sleeps half
  a second when the counter is a multiple of ten, then the model is invoked.
\<close>

fun summarize_texts ::
  "services \<Rightarrow> chunk list \<Rightarrow> nat \<Rightarrow> string list \<Rightarrow> world \<Rightarrow> nat \<times> string list \<times> world" where
  "summarize_texts svc [] count acc w = (count, acc, w)"
| "summarize_texts svc (e # es) count acc w =
     (let p = prompt_text e;
          count' = count + 1;
          w1 = (if count' mod 10 = 0 then w\<lparr>trace := trace w @ [Sleep 500]\<rparr> else w);
          w2 = w1\<lparr>trace := trace w1 @ [InvokeText p]\<rparr>
      in summarize_texts svc es count' (acc @ [text_llm svc p]) w2)"

text \<open>Second loop of \<open>create_summary\<close>: the counter goes on, there is no sleep.\<close>

fun summarize_tables ::
  "services \<Rightarrow> chunk list \<Rightarrow> nat \<Rightarrow> string list \<Rightarrow> world \<Rightarrow> nat \<times> string list \<times> world" where
  "summarize_tables svc [] count acc w = (count, acc, w)"
| "summarize_tables svc (e # es) count acc w =
     (let p = prompt_text e;
          count' = count + 1;
          w1 = w\<lparr>trace := trace w @ [InvokeText p]\<rparr>
      in summarize_tables svc es count' (acc @ [text_llm svc p]) w1)"

definition create_summary ::
  "services \<Rightarrow> PDFLoader \<Rightarrow> world \<Rightarrow> (string list \<times> string list) \<times> world" where
  "create_summary svc self w =
     (case summarize_texts svc (texts self) 0 [] w of
        (count, txt_sums, w1) \<Rightarrow>
          (case summarize_tables svc (tables self) count [] w1 of
             (count', tbl_sums, w2) \<Rightarrow> ((txt_sums, tbl_sums), w2)))"

text \<open>The URL that \<open>create_img_summary\<close> builds; \<open>None\<close> prints as \<open>None\<close>.\<close>

definition image_url :: "string option \<Rightarrow> string" where
  "image_url el =
     ''data:image/jpeg;base64,'' @ (case el of None \<Rightarrow> ''None'' | Some b \<Rightarrow> b)"

fun summarize_images ::
  "services \<Rightarrow> string option list \<Rightarrow> string list \<Rightarrow> world \<Rightarrow> string list \<times> world" where
  "summarize_images svc [] acc w = (acc, w)"
| "summarize_images svc (el # els) acc w =
     (let u = image_url el;
          w1 = w\<lparr>trace := trace w @ [InvokeVision u]\<rparr>
      in summarize_images svc els (acc @ [vision_llm svc u]) w1)"

definition create_img_summary :: "services \<Rightarrow> PDFLoader \<Rightarrow> world \<Rightarrow> string list \<times> world" where
  "create_img_summary svc self w = summarize_images svc (images self) [] w"

section \<open>Binding summaries to originals\<close>

text \<open>\<open>[str(uuid.uuid4()) for _ in xs]\<close> with \<open>k = len(xs)\<close>.\<close>

definition draw_ids :: "services \<Rightarrow> nat \<Rightarrow> world \<Rightarrow> string list \<times> world" where
  "draw_ids svc k w =
     (map (uuid4 svc) [uuid_drawn w ..< uuid_drawn w + k],
      w\<lparr>uuid_drawn := uuid_drawn w + k\<rparr>)"

text \<open>
  \<open>[Document(page_content=summary, metadata={id_key: ids[i]}) for i, summary in
  enumerate(summaries)]\<close>; \<open>ids[i]\<close> raises \<open>IndexError\<close> when there are more summaries
  than identifiers.
\<close>

definition summary_docs :: "string list \<Rightarrow> string list \<Rightarrow> error + document list" where
  "summary_docs ids summaries =
     (if length summaries \<le> length ids
      then Inr (map (\<lambda>(i, summary). \<lparr>page_content = summary, doc_id = ids ! i\<rparr>)
                  (enumerate 0 summaries))
      else Inl IndexError)"

text \<open>
  \<open>vectorstore.add_documents\<close> raises \<open>ValueError\<close> on an empty list and appends the
  entries otherwise; \<open>docstore.mset\<close> assigns key by key (a key already present is
  overwritten).
\<close>

definition add_documents :: "services \<Rightarrow> document list \<Rightarrow> document list \<Rightarrow> error + document list" where
  "add_documents svc coll docs =
     (if docs = [] then Inl (ValueError (empty_batch_msg svc)) else Inr (coll @ docs))"

definition mset_store ::
  "(string \<rightharpoonup> content) \<Rightarrow> (string \<times> content) list \<Rightarrow> (string \<rightharpoonup> content)" where
  "mset_store store kvs = foldl (\<lambda>m (k, v). m(k \<mapsto> v)) store kvs"

text \<open>
  One of the three blocks of \<open>bind_data\<close>: draw one identifier per original, build
  the summary documents, add them to the vector store, store the originals under
  the identifiers. The result is the exception raised, if any, with the loader and the
  world as the block leaves them: a block that raises has stored nothing.
\<close>

definition bind_block ::
  "services \<Rightarrow> content list \<Rightarrow> string list \<Rightarrow> PDFLoader \<Rightarrow> world
     \<Rightarrow> error option \<times> PDFLoader \<times> world"
  where
  "bind_block svc originals summaries self w =
     (case draw_ids svc (length originals) w of
        (ids, w1) \<Rightarrow>
          (case summary_docs ids summaries of
             Inl e \<Rightarrow> (Some e, self, w1)
           | Inr docs \<Rightarrow>
               (case add_documents svc (ref_rag w1) docs of
                  Inl e \<Rightarrow> (Some e, self, w1)
                | Inr coll \<Rightarrow>
                    (None, self\<lparr>docDB := mset_store (docDB self) (zip ids originals)\<rparr>,
                     w1\<lparr>ref_rag := coll\<rparr>))))"

text \<open>
  \<open>bind_data\<close>: the text block, the table block under its guard, the image block. A
  block that raises ends the method; what the earlier blocks stored stays stored.
\<close>

definition bind_data ::
  "services \<Rightarrow> PDFLoader \<Rightarrow> world \<Rightarrow> error option \<times> PDFLoader \<times> world" where
  "bind_data svc self w =
     (case bind_block svc (map Chunk (texts self)) (text_summaries self) self w of
        (Some e, s1, w1) \<Rightarrow> (Some e, s1, w1)
      | (None, s1, w1) \<Rightarrow>
          (case (if tables s1 \<noteq> []
                 then bind_block svc (map Chunk (tables s1)) (table_summaries s1) s1 w1
                 else (None, s1, w1)) of
             (Some e, s2, w2) \<Rightarrow> (Some e, s2, w2)
           | (None, s2, w2) \<Rightarrow>
               bind_block svc (map ImageB64 (images s2)) (image_summaries s2) s2 w2))"

section \<open>The constructor\<close>

text \<open>\<open>not key\<close> for the result of \<open>os.getenv\<close>: unset or empty.\<close>

definition py_not :: "string option \<Rightarrow> bool" where
  "py_not key = (case key of None \<Rightarrow> True | Some s \<Rightarrow> s = [])"

text \<open>
  The constructor. When \<open>bind_data\<close> raises, the exception leaves the constructor and
  no loader exists; the world keeps what was done until then.
\<close>

definition init ::
  "services \<Rightarrow> (string \<rightharpoonup> string) \<Rightarrow> string \<Rightarrow> world \<Rightarrow> (error + PDFLoader) \<times> world" where
  "init svc env path w =
     (let together_api_key = env ''TOGETHER_API_KEY'';
          google_api_key = env ''GOOGLE_API_KEY''
      in if py_not together_api_key
         then (Inl (ValueError ''TOGETHER_API_KEY not found in environment variables''), w)
         else if py_not google_api_key
         then (Inl (ValueError ''GOOGLE_API_KEY not found in environment variables''), w)
         else
           (let cs = partition_pdf svc path;
                w0 = w\<lparr>trace := trace w @ [Partition path]\<rparr>;
                (txts, tbls) = get_text_tables cs;
                imgs = get_imagesb64 cs;
                self0 = \<lparr>pdf_path = path, chunks = cs, texts = txts, tables = tbls,
                         images = imgs, text_summaries = [], table_summaries = [],
                         image_summaries = [], docDB = Map.empty\<rparr>;
                ((txt_sums, tbl_sums), w1) = create_summary svc self0 w0;
                self1 = self0\<lparr>text_summaries := txt_sums, table_summaries := tbl_sums\<rparr>;
                (img_sums, w2) = create_img_summary svc self1 w1;
                self2 = self1\<lparr>image_summaries := img_sums\<rparr>
            in case bind_data svc self2 w2 of
                 (Some e, s, w3) \<Rightarrow> (Inl e, w3)
               | (None, s, w3) \<Rightarrow> (Inr s, w3)))"

text \<open>
  \<open>bind_data\<close> is a public method: a caller can run it again on the constructed
  object, which indexes the same chunks once more. \<open>rebind\<close> runs it \<open>n\<close> times and
  stops at the first exception; \<open>session\<close> is the constructor followed by \<open>n\<close> such
  calls, and yields the loader when nothing was raised.
\<close>

fun rebind ::
  "services \<Rightarrow> nat \<Rightarrow> PDFLoader \<Rightarrow> world \<Rightarrow> error option \<times> PDFLoader \<times> world" where
  "rebind svc 0 self w = (None, self, w)"
| "rebind svc (Suc n) self w =
     (case bind_data svc self w of
        (Some e, s1, w1) \<Rightarrow> (Some e, s1, w1)
      | (None, s1, w1) \<Rightarrow> rebind svc n s1 w1)"

definition session ::
  "services \<Rightarrow> (string \<rightharpoonup> string) \<Rightarrow> string \<Rightarrow> nat \<Rightarrow> world \<Rightarrow> (error + PDFLoader) \<times> world"
  where
  "session svc env path n w =
     (case init svc env path w of
        (Inl e, w1) \<Rightarrow> (Inl e, w1)
      | (Inr s, w1) \<Rightarrow>
          (case rebind svc n s w1 of
             (Some e, s', w') \<Rightarrow> (Inl e, w')
           | (None, s', w') \<Rightarrow> (Inr s', w')))"

section \<open>Vocabulary of the statements\<close>

text \<open>The three substring tests of the source, named.\<close>

definition is_table :: "chunk \<Rightarrow> bool" where
  "is_table c = py_in ''Table'' (type_name c)"

definition is_composite :: "chunk \<Rightarrow> bool" where
  "is_composite c = py_in ''CompositeElement'' (type_name c)"

definition is_image :: "element \<Rightarrow> bool" where
  "is_image el = py_in ''Image'' (el_type el)"

text \<open>The events the first loop of \<open>create_summary\<close> emits, given the counter it starts from.\<close>

fun text_events :: "nat \<Rightarrow> chunk list \<Rightarrow> event list" where
  "text_events count [] = []"
| "text_events count (e # es) =
     (if Suc count mod 10 = 0 then [Sleep 500] else []) @ [InvokeText (prompt_text e)]
     @ text_events (Suc count) es"

text \<open>The identifiers drawn by \<open>k\<close> calls of \<open>uuid4\<close> after \<open>n\<close> earlier ones.\<close>

definition fresh_ids :: "services \<Rightarrow> nat \<Rightarrow> nat \<Rightarrow> string list" where
  "fresh_ids svc n k = map (uuid4 svc) [n ..< n + k]"

text \<open>Summary documents: the \<open>i\<close>-th summary under the \<open>i\<close>-th identifier.\<close>

definition mk_docs :: "string list \<Rightarrow> string list \<Rightarrow> document list" where
  "mk_docs ids sums = map (\<lambda>(i, s). \<lparr>page_content = s, doc_id = i\<rparr>) (zip ids sums)"

text \<open>What the constructor establishes: one summary per text, table and image.\<close>

definition wf_loader :: "PDFLoader \<Rightarrow> bool" where
  "wf_loader self =
     (length (text_summaries self) = length (texts self)
      \<and> length (table_summaries self) = length (tables self)
      \<and> length (image_summaries self) = length (images self))"

text \<open>
  The linkage invariant of a loader that was constructed when the collection held
  \<open>base\<close> entries: the identifiers of the entries added since are pairwise distinct and
  are exactly the keys of the loader's document store. \<open>ids_known\<close> says that every key
  was drawn from \<open>uuid4\<close> earlier, so later draws cannot meet it when \<open>uuid4\<close> is
  injective; \<open>world_ok\<close> says the same of the whole collection.
\<close>

definition linked_from :: "nat \<Rightarrow> PDFLoader \<Rightarrow> world \<Rightarrow> bool" where
  "linked_from base self w =
     (base \<le> length (ref_rag w)
      \<and> distinct (map doc_id (drop base (ref_rag w)))
      \<and> set (map doc_id (drop base (ref_rag w))) = dom (docDB self))"

definition ids_known :: "services \<Rightarrow> PDFLoader \<Rightarrow> world \<Rightarrow> bool" where
  "ids_known svc self w = (dom (docDB self) \<subseteq> uuid4 svc ` {..< uuid_drawn w})"

definition world_ok :: "services \<Rightarrow> world \<Rightarrow> bool" where
  "world_ok svc w =
     (distinct (map doc_id (ref_rag w))
      \<and> set (map doc_id (ref_rag w)) \<subseteq> uuid4 svc ` {..< uuid_drawn w})"

text \<open>
  What holds of a constructed loader: one summary per original, at least one text and
  one image (otherwise \<open>bind_data\<close> raises), the linkage and the known identifiers.
\<close>

definition loader_inv :: "services \<Rightarrow> nat \<Rightarrow> PDFLoader \<Rightarrow> world \<Rightarrow> bool" where
  "loader_inv svc base s w =
     (wf_loader s \<and> texts s \<noteq> [] \<and> images s \<noteq> []
      \<and> linked_from base s w \<and> ids_known svc s w)"

text \<open>Originals and summaries in the order \<open>bind_data\<close> indexes them.\<close>

definition originals :: "PDFLoader \<Rightarrow> content list" where
  "originals self =
     map Chunk (texts self) @ map Chunk (tables self) @ map ImageB64 (images self)"

definition summaries :: "PDFLoader \<Rightarrow> string list" where
  "summaries self = text_summaries self @ table_summaries self @ image_summaries self"

text \<open>
  The loader and the world that a successful \<open>bind_data\<close> leaves: one fresh identifier
  per original, the summaries appended to the collection under these identifiers, the
  originals stored under them.
\<close>

definition bound_loader :: "services \<Rightarrow> PDFLoader \<Rightarrow> world \<Rightarrow> PDFLoader" where
  "bound_loader svc self w =
     self\<lparr>docDB := (docDB self)(fresh_ids svc (uuid_drawn w) (length (originals self))
                        [\<mapsto>] originals self)\<rparr>"

definition bound_world :: "services \<Rightarrow> PDFLoader \<Rightarrow> world \<Rightarrow> world" where
  "bound_world svc self w =
     w\<lparr>uuid_drawn := uuid_drawn w + length (originals self),
       ref_rag := ref_rag w
         @ mk_docs (fresh_ids svc (uuid_drawn w) (length (originals self))) (summaries self)\<rparr>"

text \<open>\<open>bind_data\<close> changes no attribute of the loader but its document store.\<close>

definition same_inputs :: "PDFLoader \<Rightarrow> PDFLoader \<Rightarrow> bool" where
  "same_inputs s s' =
     (pdf_path s = pdf_path s' \<and> chunks s = chunks s' \<and> texts s = texts s'
      \<and> tables s = tables s' \<and> images s = images s'
      \<and> text_summaries s = text_summaries s' \<and> table_summaries s = table_summaries s'
      \<and> image_summaries s = image_summaries s')"

text \<open>
  The loader as the constructor has it just before it calls \<open>bind_data\<close>, and the
  events the constructor emits up to that point.
\<close>

definition loaded :: "services \<Rightarrow> string \<Rightarrow> PDFLoader" where
  "loaded svc path =
     (let cs = partition_pdf svc path
      in \<lparr>pdf_path = path, chunks = cs,
          texts = filter is_composite cs, tables = filter is_table cs,
          images = get_imagesb64 cs,
          text_summaries = map (\<lambda>e. text_llm svc (prompt_text e)) (filter is_composite cs),
          table_summaries = map (\<lambda>e. text_llm svc (prompt_text e)) (filter is_table cs),
          image_summaries = map (\<lambda>el. vision_llm svc (image_url el)) (get_imagesb64 cs),
          docDB = Map.empty\<rparr>)"

definition ingest_events :: "services \<Rightarrow> string \<Rightarrow> event list" where
  "ingest_events svc path =
     (let cs = partition_pdf svc path
      in [Partition path] @ text_events 0 (filter is_composite cs)
         @ map (\<lambda>e. InvokeText (prompt_text e)) (filter is_table cs)
         @ map (\<lambda>el. InvokeVision (image_url el)) (get_imagesb64 cs))"

definition keys_present :: "(string \<rightharpoonup> string) \<Rightarrow> bool" where
  "keys_present env =
     (\<not> py_not (env ''TOGETHER_API_KEY'') \<and> \<not> py_not (env ''GOOGLE_API_KEY''))"

text \<open>The chunks that \<open>get_text_tables\<close> keeps.\<close>

definition ingested :: "chunk \<Rightarrow> bool" where
  "ingested c = (py_in ''Table'' (type_name c) \<or> py_in ''CompositeElement'' (type_name c))"




section \<open>Search\<close>






section \<open>Concrete collaborators for the examples\<close>

text \<open>
  An injective identifier source, a three-chunk document and the world of a process
  that has just started.
\<close>

definition seq_uuid :: "nat \<Rightarrow> string" where
  "seq_uuid n = replicate (Suc n) (CHR ''u'')"

definition ex_chunks :: "chunk list" where
  "ex_chunks =
     [\<lparr>type_name = ''CompositeElement'', chunk_text = ''Revenue grew 10%'',
        orig_elements = [\<lparr>el_type = ''NarrativeText'', image_base64 = None\<rparr>,
                         \<lparr>el_type = ''Image'', image_base64 = Some ''aGk=''\<rparr>]\<rparr>,
      \<lparr>type_name = ''Table'', chunk_text = ''Q1 | Q2'', orig_elements = []\<rparr>,
      \<lparr>type_name = ''Title'', chunk_text = ''Report'', orig_elements = []\<rparr>]"

definition ex_svc :: services where
  "ex_svc = \<lparr>uuid4 = seq_uuid, partition_pdf = (\<lambda>p. ex_chunks),
             text_llm = (\<lambda>p. ''summary''), vision_llm = (\<lambda>u. ''picture''),
             empty_batch_msg = ''empty batch''\<rparr>"

definition ex_env :: "string \<rightharpoonup> string" where
  "ex_env = [''TOGETHER_API_KEY'' \<mapsto> ''t'', ''GOOGLE_API_KEY'' \<mapsto> ''g'']"

definition w0 :: world where
  "w0 = \<lparr>uuid_drawn = 0, trace = [], ref_rag = []\<rparr>"

definition blank_svc :: services where
  "blank_svc = ex_svc\<lparr>text_llm := (\<lambda>p. [])\<rparr>"

definition pic_chunk :: chunk where
  "pic_chunk = \<lparr>type_name = ''CompositeElement'', chunk_text = ''Revenue grew 10%'',
                orig_elements = [\<lparr>el_type = ''Image'', image_base64 = Some ''aGk=''\<rparr>]\<rparr>"

definition pic_svc :: services where
  "pic_svc = ex_svc\<lparr>partition_pdf := (\<lambda>p. [pic_chunk])\<rparr>"






section \<open>The loops in closed form\<close>

lemma get_text_tables_loop_eq:
  "get_text_tables_loop cs tbls txts =
     (txts @ filter is_composite cs, tbls @ filter is_table cs)"
  by (induction cs arbitrary: tbls txts) (simp_all add: is_table_def is_composite_def Let_def)

lemma get_text_tables_eq:
  "get_text_tables cs = (filter is_composite cs, filter is_table cs)"
  by (simp add: get_text_tables_def get_text_tables_loop_eq)

lemma get_images_inner_eq:
  "get_images_inner els acc = acc @ map image_base64 (filter is_image els)"
  by (induction els arbitrary: acc) (simp_all add: is_image_def)

lemma get_images_loop_eq:
  "get_images_loop cs acc =
     acc @ concat (map (\<lambda>c. map image_base64 (filter is_image (orig_elements c)))
                       (filter is_composite cs))"
  by (induction cs arbitrary: acc) (simp_all add: is_composite_def get_images_inner_eq)

lemma get_imagesb64_eq:
  "get_imagesb64 cs =
     concat (map (\<lambda>c. map image_base64 (filter is_image (orig_elements c)))
                 (filter is_composite cs))"
  by (simp add: get_imagesb64_def get_images_loop_eq)

lemma summarize_texts_eq:
  "summarize_texts svc es count acc w =
     (count + length es, acc @ map (\<lambda>e. text_llm svc (prompt_text e)) es,
      w\<lparr>trace := trace w @ text_events count es\<rparr>)"
  by (induction es arbitrary: count acc w) (simp_all add: Let_def)

lemma summarize_tables_eq:
  "summarize_tables svc es count acc w =
     (count + length es, acc @ map (\<lambda>e. text_llm svc (prompt_text e)) es,
      w\<lparr>trace := trace w @ map (\<lambda>e. InvokeText (prompt_text e)) es\<rparr>)"
  by (induction es arbitrary: count acc w) (simp_all add: Let_def)

lemma summarize_images_eq:
  "summarize_images svc els acc w =
     (acc @ map (\<lambda>el. vision_llm svc (image_url el)) els,
      w\<lparr>trace := trace w @ map (\<lambda>el. InvokeVision (image_url el)) els\<rparr>)"
  by (induction els arbitrary: acc w) (simp_all add: Let_def)

lemma mset_store_zip:
  "mset_store m (zip ks vs) = m(ks [\<mapsto>] vs)"
  by (simp add: mset_store_def map_upds_fold_map_upd)

lemma summary_docs_eq:
  "length sums \<le> length ids \<Longrightarrow>
   summary_docs ids sums =
     Inr (map (\<lambda>(i, s). \<lparr>page_content = s, doc_id = i\<rparr>) (zip ids sums))"
proof -
  assume le: "length sums \<le> length ids"
  have "map (\<lambda>(i, summary). \<lparr>page_content = summary, doc_id = ids ! i\<rparr>) (enumerate 0 sums)
        = map (\<lambda>(i, s). \<lparr>page_content = s, doc_id = i\<rparr>) (zip ids sums)"
    using le by (intro nth_equalityI) (simp_all add: nth_enumerate_eq)
  then show ?thesis using le by (simp add: summary_docs_def)
qed

section \<open>bind_data in closed form\<close>

lemma length_fresh_ids [simp]: "length (fresh_ids svc n k) = k"
  by (simp add: fresh_ids_def)

lemma doc_ids_mk_docs:
  "length ids = length sums \<Longrightarrow> map doc_id (mk_docs ids sums) = ids"
  by (induction ids sums rule: list_induct2) (simp_all add: mk_docs_def)

lemma contents_mk_docs:
  "length ids = length sums \<Longrightarrow> map page_content (mk_docs ids sums) = sums"
  by (induction ids sums rule: list_induct2) (simp_all add: mk_docs_def)

lemma length_mk_docs [simp]: "length (mk_docs ids sums) = min (length ids) (length sums)"
  by (simp add: mk_docs_def)

lemma distinct_fresh_ids: "inj (uuid4 svc) \<Longrightarrow> distinct (fresh_ids svc n k)"
  by (simp add: fresh_ids_def distinct_map inj_on_subset [OF _ subset_UNIV])

lemma set_fresh_ids: "set (fresh_ids svc n k) = uuid4 svc ` {n ..< n + k}"
  by (simp add: fresh_ids_def)

lemma mk_docs_Nil_iff: "mk_docs ids sums = [] \<longleftrightarrow> ids = [] \<or> sums = []"
  by (cases ids; cases sums) (simp_all add: mk_docs_def)

lemma bind_block_eq:
  assumes "length sums = length origs" and "origs \<noteq> []"
  shows "bind_block svc origs sums self w =
     (None,
      self\<lparr>docDB := (docDB self)(fresh_ids svc (uuid_drawn w) (length origs) [\<mapsto>] origs)\<rparr>,
      w\<lparr>uuid_drawn := uuid_drawn w + length origs,
        ref_rag := ref_rag w @ mk_docs (fresh_ids svc (uuid_drawn w) (length origs)) sums\<rparr>)"
proof -
  let ?ids = "fresh_ids svc (uuid_drawn w) (length origs)"
  have d: "summary_docs ?ids sums = Inr (mk_docs ?ids sums)"
    using assms(1) by (simp add: summary_docs_eq mk_docs_def)
  have ne: "mk_docs ?ids sums \<noteq> []"
    using assms by (auto simp: mk_docs_Nil_iff fresh_ids_def)
  show ?thesis
    using d ne
    by (simp add: bind_block_def draw_ids_def add_documents_def mset_store_zip
        fresh_ids_def [symmetric])
qed

lemma bind_block_empty:
  "bind_block svc [] [] self w = (Some (ValueError (empty_batch_msg svc)), self, w)"
  by (simp add: bind_block_def draw_ids_def summary_docs_def add_documents_def)

lemma fresh_ids_add:
  "fresh_ids svc n (a + b) = fresh_ids svc n a @ fresh_ids svc (n + a) b"
proof -
  have "[n ..< n + (a + b)] = [n ..< n + a] @ [n + a ..< n + a + b]"
    using upt_add_eq_append [of n "n + a" b] by (simp add: add.assoc)
  then show ?thesis by (simp add: fresh_ids_def)
qed

lemma mk_docs_append:
  "length i1 = length s1 \<Longrightarrow> mk_docs (i1 @ i2) (s1 @ s2) = mk_docs i1 s1 @ mk_docs i2 s2"
  by (simp add: mk_docs_def)

lemma map_upds_app:
  "length ks = length vs \<Longrightarrow> m(ks @ ks' [\<mapsto>] vs @ vs') = (m(ks [\<mapsto>] vs))(ks' [\<mapsto>] vs')"
  by (induction ks vs arbitrary: m rule: list_induct2) simp_all

lemma fresh_ids_0 [simp]: "fresh_ids svc n 0 = []"
  by (simp add: fresh_ids_def)

lemma mk_docs_Nil [simp]: "mk_docs [] sums = []" "mk_docs ids [] = []"
  by (simp_all add: mk_docs_def)

lemma bind_data_eq:
  assumes wf: "wf_loader self" and tx: "texts self \<noteq> []" and im: "images self \<noteq> []"
  shows "bind_data svc self w = (None, bound_loader svc self w, bound_world svc self w)"
proof -
  let ?n = "uuid_drawn w"
  let ?a = "length (texts self)" and ?b = "length (tables self)" and ?c = "length (images self)"
  have ids: "fresh_ids svc ?n (length (originals self)) =
        fresh_ids svc ?n ?a @ fresh_ids svc (?n + ?a) ?b @ fresh_ids svc (?n + ?a + ?b) ?c"
    by (simp add: originals_def fresh_ids_add add.assoc)
  have docs: "mk_docs (fresh_ids svc ?n (length (originals self))) (summaries self) =
        mk_docs (fresh_ids svc ?n ?a) (text_summaries self)
        @ mk_docs (fresh_ids svc (?n + ?a) ?b) (table_summaries self)
        @ mk_docs (fresh_ids svc (?n + ?a + ?b) ?c) (image_summaries self)"
    using wf by (simp only: ids) (simp add: summaries_def wf_loader_def mk_docs_append)
  have store: "(docDB self)(fresh_ids svc ?n (length (originals self)) [\<mapsto>] originals self) =
        (((docDB self)(fresh_ids svc ?n ?a [\<mapsto>] map Chunk (texts self)))
          (fresh_ids svc (?n + ?a) ?b [\<mapsto>] map Chunk (tables self)))
          (fresh_ids svc (?n + ?a + ?b) ?c [\<mapsto>] map ImageB64 (images self))"
    by (simp only: ids) (simp add: originals_def map_upds_app)
  have len: "length (originals self) = ?a + ?b + ?c" by (simp add: originals_def)
  have b1: "bind_block svc (map Chunk (texts self)) (text_summaries self) self w =
     (None,
      self\<lparr>docDB := (docDB self)(fresh_ids svc ?n ?a [\<mapsto>] map Chunk (texts self))\<rparr>,
      w\<lparr>uuid_drawn := ?n + ?a,
        ref_rag := ref_rag w @ mk_docs (fresh_ids svc ?n ?a) (text_summaries self)\<rparr>)"
    using wf tx bind_block_eq [of "text_summaries self" "map Chunk (texts self)" svc self w]
    by (simp add: wf_loader_def)
  show ?thesis
  proof (cases "tables self = []")
    case True
    with wf have ts: "table_summaries self = []" by (simp add: wf_loader_def)
    show ?thesis
      apply (simp only: bound_loader_def bound_world_def docs store)
      using wf im True ts
      by (simp add: bind_data_def b1 bind_block_eq wf_loader_def len)
  next
    case False
    show ?thesis
      apply (simp only: bound_loader_def bound_world_def docs store)
      using wf im False
      by (simp add: bind_data_def b1 bind_block_eq wf_loader_def len add.assoc)
  qed
qed

section \<open>The linkage invariant\<close>

lemma same_inputs_refl: "same_inputs s s"
  by (simp add: same_inputs_def)

lemma same_inputs_trans: "same_inputs a b \<Longrightarrow> same_inputs b c \<Longrightarrow> same_inputs a c"
  by (simp add: same_inputs_def)

lemma same_inputs_originals: "same_inputs s s' \<Longrightarrow> originals s = originals s'"
  by (simp add: same_inputs_def originals_def)


lemma length_originals_summaries:
  "wf_loader self \<Longrightarrow> length (summaries self) = length (originals self)"
  by (simp add: wf_loader_def summaries_def originals_def)

lemma fresh_ids_disjoint_known:
  assumes "inj (uuid4 svc)" and "A \<subseteq> uuid4 svc ` {..< n}"
  shows "A \<inter> set (fresh_ids svc n k) = {}"
proof -
  have "uuid4 svc ` {..< n} \<inter> uuid4 svc ` {n ..< n + k} = uuid4 svc ` ({..< n} \<inter> {n ..< n + k})"
    using assms(1) by (simp add: image_Int)
  also have "\<dots> = {}" by auto
  finally show ?thesis using assms(2) by (auto simp: set_fresh_ids)
qed

lemma fresh_ids_known: "set (fresh_ids svc n k) \<subseteq> uuid4 svc ` {..< n + k}"
  by (auto simp: set_fresh_ids)

lemma known_mono: "A \<subseteq> uuid4 svc ` {..< n} \<Longrightarrow> A \<subseteq> uuid4 svc ` {..< n + k}"
  by (auto simp: image_iff) (metis trans_less_add1 lessThan_iff imageE subsetD)

lemma bound_fields:
  "texts (bound_loader svc self w) = texts self"
  "tables (bound_loader svc self w) = tables self"
  "images (bound_loader svc self w) = images self"
  "originals (bound_loader svc self w) = originals self"
  "summaries (bound_loader svc self w) = summaries self"
  "docDB (bound_loader svc self w) =
     (docDB self)(fresh_ids svc (uuid_drawn w) (length (originals self)) [\<mapsto>] originals self)"
  "uuid_drawn (bound_world svc self w) = uuid_drawn w + length (originals self)"
  "trace (bound_world svc self w) = trace w"
  "ref_rag (bound_world svc self w) =
     ref_rag w @ mk_docs (fresh_ids svc (uuid_drawn w) (length (originals self))) (summaries self)"
  by (simp_all add: bound_loader_def bound_world_def originals_def summaries_def)

lemma same_inputs_bound: "same_inputs (bound_loader svc self w) self"
  by (simp add: same_inputs_def bound_loader_def)

lemma wf_bound: "wf_loader self \<Longrightarrow> wf_loader (bound_loader svc self w)"
  by (simp add: wf_loader_def bound_loader_def)

lemma new_ids_bound:
  "wf_loader self \<Longrightarrow>
   map doc_id (mk_docs (fresh_ids svc (uuid_drawn w) (length (originals self))) (summaries self))
     = fresh_ids svc (uuid_drawn w) (length (originals self))"
  by (simp add: doc_ids_mk_docs length_originals_summaries)

lemma linked_bound:
  assumes inj: "inj (uuid4 svc)" and wf: "wf_loader self"
    and lk: "linked_from base self w" and kn: "ids_known svc self w"
  shows "linked_from base (bound_loader svc self w) (bound_world svc self w)"
proof -
  let ?ids = "fresh_ids svc (uuid_drawn w) (length (originals self))"
  from lk have b: "base \<le> length (ref_rag w)"
    and d: "distinct (map doc_id (drop base (ref_rag w)))"
    and e: "set (map doc_id (drop base (ref_rag w))) = dom (docDB self)"
    by (simp_all add: linked_from_def)
  have disj: "dom (docDB self) \<inter> set ?ids = {}"
    using inj kn unfolding ids_known_def by (rule fresh_ids_disjoint_known)
  have dr: "map doc_id (drop base (ref_rag (bound_world svc self w))) =
      map doc_id (drop base (ref_rag w)) @ ?ids"
    using b by (simp add: bound_fields new_ids_bound [OF wf])
  have dm: "dom (docDB (bound_loader svc self w)) = set ?ids \<union> dom (docDB self)"
    by (simp add: bound_fields)
  show ?thesis
    unfolding linked_from_def dr dm
    using b d e disj distinct_fresh_ids [OF inj, of "uuid_drawn w" "length (originals self)"]
    by (auto simp: bound_fields)
qed

lemma ids_known_bound:
  assumes "ids_known svc self w"
  shows "ids_known svc (bound_loader svc self w) (bound_world svc self w)"
proof -
  let ?k = "length (originals self)"
  have "dom (docDB (bound_loader svc self w)) =
      set (fresh_ids svc (uuid_drawn w) ?k) \<union> dom (docDB self)"
    by (simp add: bound_fields)
  then show ?thesis
    using assms fresh_ids_known [of svc "uuid_drawn w" ?k]
      known_mono [of "dom (docDB self)" svc "uuid_drawn w" ?k]
    by (simp add: ids_known_def bound_fields)
qed

lemma world_ok_bound:
  assumes inj: "inj (uuid4 svc)" and wf: "wf_loader self" and ok: "world_ok svc w"
  shows "world_ok svc (bound_world svc self w)"
proof -
  let ?k = "length (originals self)"
  let ?ids = "fresh_ids svc (uuid_drawn w) ?k"
  from ok have d: "distinct (map doc_id (ref_rag w))"
    and k: "set (map doc_id (ref_rag w)) \<subseteq> uuid4 svc ` {..< uuid_drawn w}"
    by (simp_all add: world_ok_def)
  have disj: "set (map doc_id (ref_rag w)) \<inter> set ?ids = {}"
    using inj k by (rule fresh_ids_disjoint_known)
  have m: "map doc_id (ref_rag (bound_world svc self w)) = map doc_id (ref_rag w) @ ?ids"
    by (simp add: bound_fields new_ids_bound [OF wf])
  show ?thesis
    unfolding world_ok_def m
    using d disj distinct_fresh_ids [OF inj, of "uuid_drawn w" ?k]
      fresh_ids_known [of svc "uuid_drawn w" ?k]
      known_mono [OF k, of ?k]
    by (simp add: bound_fields)
qed

lemma loader_inv_bound:
  assumes "inj (uuid4 svc)" and "loader_inv svc base s w"
  shows "loader_inv svc base (bound_loader svc s w) (bound_world svc s w)"
  using assms
  by (simp add: loader_inv_def wf_bound linked_bound ids_known_bound bound_fields)

lemma bind_data_inv:
  assumes "loader_inv svc base s w"
  shows "bind_data svc s w = (None, bound_loader svc s w, bound_world svc s w)"
  using assms by (simp add: loader_inv_def bind_data_eq)

lemma take_prefix_trans:
  assumes "take (length (a @ b)) c = a @ b"
  shows "take (length a) c = a"
proof -
  have "take (length a) c = take (length a) (take (length (a @ b)) c)"
    by (simp add: min_def)
  also have "\<dots> = a" unfolding assms by simp
  finally show ?thesis .
qed

section \<open>The constructor in closed form\<close>

lemma get_imagesb64_nonempty:
  "get_imagesb64 cs \<noteq> [] \<Longrightarrow> filter is_composite cs \<noteq> []"
proof
  assume "get_imagesb64 cs \<noteq> []" and "filter is_composite cs = []"
  then show False by (simp add: get_imagesb64_eq)
qed

lemma loaded_fields:
  "texts (loaded svc path) = filter is_composite (partition_pdf svc path)"
  "tables (loaded svc path) = filter is_table (partition_pdf svc path)"
  "images (loaded svc path) = get_imagesb64 (partition_pdf svc path)"
  "chunks (loaded svc path) = partition_pdf svc path"
  "text_summaries (loaded svc path) = map (\<lambda>e. text_llm svc (prompt_text e)) (filter is_composite (partition_pdf svc path))"
  "table_summaries (loaded svc path) = map (\<lambda>e. text_llm svc (prompt_text e)) (filter is_table (partition_pdf svc path))"
  "image_summaries (loaded svc path) = map (\<lambda>el. vision_llm svc (image_url el)) (get_imagesb64 (partition_pdf svc path))"
  "docDB (loaded svc path) = Map.empty"
  by (simp_all add: loaded_def Let_def)

lemma init_eq:
  assumes "keys_present env"
  shows "init svc env path w =
     (case bind_data svc (loaded svc path) (w\<lparr>trace := trace w @ ingest_events svc path\<rparr>) of
        (Some e, s, w3) \<Rightarrow> (Inl e, w3)
      | (None, s, w3) \<Rightarrow> (Inr s, w3))"
  using assms
  by (simp add: init_def keys_present_def Let_def get_text_tables_eq create_summary_def
      summarize_texts_eq summarize_tables_eq create_img_summary_def summarize_images_eq
      loaded_def ingest_events_def)

lemma wf_loaded: "wf_loader (loaded svc path)"
  by (simp add: wf_loader_def loaded_def Let_def)

lemma loader_inv_loaded:
  assumes "get_imagesb64 (partition_pdf svc path) \<noteq> []" and "length (ref_rag w) = base"
  shows "loader_inv svc base (loaded svc path) w"
  using assms get_imagesb64_nonempty [OF assms(1)]
  by (simp add: loader_inv_def wf_loaded loaded_fields linked_from_def ids_known_def)

lemma init_result:
  assumes "keys_present env" and "get_imagesb64 (partition_pdf svc path) \<noteq> []"
  shows "init svc env path w =
     (Inr (bound_loader svc (loaded svc path) (w\<lparr>trace := trace w @ ingest_events svc path\<rparr>)),
      bound_world svc (loaded svc path) (w\<lparr>trace := trace w @ ingest_events svc path\<rparr>))"
proof -
  have "loader_inv svc (length (ref_rag w)) (loaded svc path)
          (w\<lparr>trace := trace w @ ingest_events svc path\<rparr>)"
    by (rule loader_inv_loaded [OF assms(2)]) simp
  then show ?thesis
    by (simp add: init_eq [OF assms(1)] bind_data_inv)
qed

lemma init_missing_key:
  assumes "\<not> keys_present env"
  shows "\<exists>msg. init svc env path w = (Inl (ValueError msg), w)"
  using assms by (auto simp: init_def keys_present_def Let_def)

lemma rebind_inv:
  assumes inj: "inj (uuid4 svc)"
  shows "loader_inv svc base self w \<Longrightarrow>
     \<exists>s w'. rebind svc n self w = (None, s, w') \<and> loader_inv svc base s w'
        \<and> same_inputs s self \<and> trace w' = trace w
        \<and> take (length (ref_rag w)) (ref_rag w') = ref_rag w
        \<and> (world_ok svc w \<longrightarrow> world_ok svc w')"
proof (induction n arbitrary: self w)
  case 0
  then show ?case by (simp add: same_inputs_refl)
next
  case (Suc n)
  let ?s1 = "bound_loader svc self w" and ?w1 = "bound_world svc self w"
  have b: "bind_data svc self w = (None, ?s1, ?w1)" by (rule bind_data_inv [OF Suc.prems])
  have inv1: "loader_inv svc base ?s1 ?w1" by (rule loader_inv_bound [OF inj Suc.prems])
  from Suc.IH [OF inv1]
  obtain s w' where r: "rebind svc n ?s1 ?w1 = (None, s, w')"
    and inv': "loader_inv svc base s w'"
    and same': "same_inputs s ?s1" and tr: "trace w' = trace ?w1"
    and pre: "take (length (ref_rag ?w1)) (ref_rag w') = ref_rag ?w1"
    and ok: "world_ok svc ?w1 \<longrightarrow> world_ok svc w'"
    by blast
  have wf: "wf_loader self" using Suc.prems by (simp add: loader_inv_def)
  have same: "same_inputs s self" by (rule same_inputs_trans [OF same' same_inputs_bound])
  have pre': "take (length (ref_rag w)) (ref_rag w') = ref_rag w"
    using pre by (simp only: bound_fields) (rule take_prefix_trans)
  have ok': "world_ok svc w \<longrightarrow> world_ok svc w'"
    using ok world_ok_bound [OF inj wf] by blast
  from r b inv' same tr pre' ok' show ?case by (simp add: bound_fields)
qed

lemma rebind_snoc:
  "rebind svc (Suc n) self w =
     (case rebind svc n self w of
        (Some e, s1, w1) \<Rightarrow> (Some e, s1, w1)
      | (None, s1, w1) \<Rightarrow> bind_data svc s1 w1)"
proof (induction n arbitrary: self w)
  case 0
  show ?case by (cases "bind_data svc self w") (auto split: option.splits)
next
  case (Suc n)
  obtain r s1 w1 where b: "bind_data svc self w = (r, s1, w1)"
    by (cases "bind_data svc self w") auto
  show ?case
  proof (cases r)
    case (Some e)
    with b show ?thesis by simp
  next
    case None
    have "rebind svc (Suc (Suc n)) self w = rebind svc (Suc n) s1 w1"
      using b None by simp
    also have "\<dots> = (case rebind svc n s1 w1 of
        (Some e, s2, w2) \<Rightarrow> (Some e, s2, w2)
      | (None, s2, w2) \<Rightarrow> bind_data svc s2 w2)"
      by (rule Suc.IH)
    also have "rebind svc n s1 w1 = rebind svc (Suc n) self w"
      using b None by simp
    finally show ?thesis .
  qed
qed

lemma session_0: "session svc env path 0 w = init svc env path w"
  by (cases "init svc env path w") (auto simp: session_def split: sum.splits)

lemma session_step:
  assumes inj: "inj (uuid4 svc)" and keys: "keys_present env"
    and img: "get_imagesb64 (partition_pdf svc path) \<noteq> []"
  shows "\<exists>s1 w1. session svc env path n w = (Inr s1, w1)
       \<and> session svc env path (Suc n) w = (Inr (bound_loader svc s1 w1), bound_world svc s1 w1)
       \<and> loader_inv svc (length (ref_rag w)) s1 w1
       \<and> same_inputs s1 (loaded svc path)
       \<and> trace w1 = trace w @ ingest_events svc path
       \<and> take (length (ref_rag w)) (ref_rag w1) = ref_rag w
       \<and> (world_ok svc w \<longrightarrow> world_ok svc w1)"
proof -
  let ?L = "loaded svc path"
  let ?wt = "w\<lparr>trace := trace w @ ingest_events svc path\<rparr>"
  let ?s0 = "bound_loader svc ?L ?wt" and ?w0 = "bound_world svc ?L ?wt"
  let ?base = "length (ref_rag w)"
  have i: "init svc env path w = (Inr ?s0, ?w0)" by (rule init_result [OF keys img])
  have invL: "loader_inv svc ?base ?L ?wt" by (rule loader_inv_loaded [OF img]) simp
  have inv0: "loader_inv svc ?base ?s0 ?w0" by (rule loader_inv_bound [OF inj invL])
  have ok0: "world_ok svc w \<longrightarrow> world_ok svc ?w0"
  proof
    assume "world_ok svc w"
    then have "world_ok svc ?wt" by (simp add: world_ok_def)
    then show "world_ok svc ?w0" by (rule world_ok_bound [OF inj wf_loaded])
  qed
  from rebind_inv [OF inj inv0, of n]
  obtain s1 w1 where r: "rebind svc n ?s0 ?w0 = (None, s1, w1)"
    and inv1: "loader_inv svc ?base s1 w1"
    and same1: "same_inputs s1 ?s0" and tr1: "trace w1 = trace ?w0"
    and pre1: "take (length (ref_rag ?w0)) (ref_rag w1) = ref_rag ?w0"
    and ok1: "world_ok svc ?w0 \<longrightarrow> world_ok svc w1"
    by blast
  have sn: "session svc env path n w = (Inr s1, w1)"
    by (simp add: session_def i r)
  have b: "bind_data svc s1 w1 = (None, bound_loader svc s1 w1, bound_world svc s1 w1)"
    by (rule bind_data_inv [OF inv1])
  have "rebind svc (Suc n) ?s0 ?w0 = (None, bound_loader svc s1 w1, bound_world svc s1 w1)"
    by (simp only: rebind_snoc r) (simp add: b)
  then have ss: "session svc env path (Suc n) w =
      (Inr (bound_loader svc s1 w1), bound_world svc s1 w1)"
    by (simp add: session_def i del: rebind.simps)
  have same: "same_inputs s1 ?L" by (rule same_inputs_trans [OF same1 same_inputs_bound])
  have tr: "trace w1 = trace w @ ingest_events svc path"
    using tr1 by (simp add: bound_fields)
  have pre: "take ?base (ref_rag w1) = ref_rag w"
  proof -
    have "take (length (ref_rag ?wt)) (ref_rag w1) = ref_rag ?wt"
      using pre1 by (simp only: bound_fields) (rule take_prefix_trans)
    then show ?thesis by simp
  qed
  from sn ss inv1 same tr pre ok0 ok1 show ?thesis by blast
qed

section \<open>Credentials and the linkage of the two stores\<close>

lemma inj_seq_uuid: "inj seq_uuid"
proof (rule injI)
  fix m n assume "seq_uuid m = seq_uuid n"
  then have "length (seq_uuid m) = length (seq_uuid n)" by simp
  then show "m = n" by (simp add: seq_uuid_def)
qed

lemma inj_ex_svc: "inj (uuid4 ex_svc)"
  by (simp add: ex_svc_def inj_seq_uuid)

lemma keys_ex_env: "keys_present ex_env"
  by (simp add: keys_present_def ex_env_def py_not_def)

lemma ex_filters:
  "filter is_composite ex_chunks = [ex_chunks ! 0]"
  "filter is_table ex_chunks = [ex_chunks ! 1]"
  by (simp_all add: ex_chunks_def is_composite_def is_table_def py_in_def sublist_Cons_right)

lemma ex_images: "get_imagesb64 ex_chunks = [Some ''aGk='']"
  by (simp add: get_imagesb64_def ex_chunks_def py_in_def sublist_Cons_right)

lemma ex_partition: "partition_pdf ex_svc p = ex_chunks"
  by (simp add: ex_svc_def)

lemma ex_has_images: "get_imagesb64 (partition_pdf ex_svc ''doc.pdf'') \<noteq> []"
  by (simp add: ex_partition ex_images)



text \<open>
  Claim C6. When either API key is unset or empty the constructor raises \<open>ValueError\<close>
  at once: the world is returned as it was, so no partitioning, no model call, no
  sleep and no identifier draw has happened, and no loader object (hence no index)
  exists.
\<close>

theorem init_fails_fast_without_credentials:
  assumes "py_not (env ''TOGETHER_API_KEY'') \<or> py_not (env ''GOOGLE_API_KEY'')"
  shows "\<exists>msg. init svc env path w = (Inl (ValueError msg), w)"
  using assms by (auto simp: init_def Let_def)

theorem init_fails_fast_without_credentials_witness:
  "(py_not ([''TOGETHER_API_KEY'' \<mapsto> ''t''] ''TOGETHER_API_KEY'')
      \<or> py_not ([''TOGETHER_API_KEY'' \<mapsto> ''t''] ''GOOGLE_API_KEY''))
   \<and> (\<exists>msg. init ex_svc [''TOGETHER_API_KEY'' \<mapsto> ''t''] ''doc.pdf'' w0 = (Inl (ValueError msg), w0))"
proof -
  have h: "py_not ([''TOGETHER_API_KEY'' \<mapsto> ''t''] ''TOGETHER_API_KEY'')
      \<or> py_not ([''TOGETHER_API_KEY'' \<mapsto> ''t''] ''GOOGLE_API_KEY'')"
    by (simp add: py_not_def)
  from init_fails_fast_without_credentials [OF h, of ex_svc "''doc.pdf''" w0] h
  show ?thesis by blast
qed

lemma linked_from_card:
  "linked_from base s w \<Longrightarrow> card (dom (docDB s)) = length (ref_rag w) - base"
proof -
  assume "linked_from base s w"
  then have d: "distinct (map doc_id (drop base (ref_rag w)))"
    and e: "dom (docDB s) = set (map doc_id (drop base (ref_rag w)))"
    by (simp_all add: linked_from_def)
  show ?thesis unfolding e using distinct_card [OF d] by simp
qed

lemma length_originals:
  "length (originals s) = length (texts s) + length (tables s) + length (images s)"
  by (simp add: originals_def)

lemma init_counts:
  assumes inj: "inj (uuid4 svc)" and keys: "keys_present env"
    and img: "get_imagesb64 (partition_pdf svc path) \<noteq> []"
  shows "\<not> isl (fst (init svc env path w))"
    and "length (ref_rag (snd (init svc env path w))) =
           length (ref_rag w) + length (originals (loaded svc path))"
    and "card (dom (docDB (projr (fst (init svc env path w))))) =
           length (originals (loaded svc path))"
proof -
  let ?L = "loaded svc path"
  let ?wt = "w\<lparr>trace := trace w @ ingest_events svc path\<rparr>"
  have i: "init svc env path w = (Inr (bound_loader svc ?L ?wt), bound_world svc ?L ?wt)"
    by (rule init_result [OF keys img])
  show "\<not> isl (fst (init svc env path w))" by (simp add: i)
  show l: "length (ref_rag (snd (init svc env path w))) =
           length (ref_rag w) + length (originals ?L)"
    by (simp add: i bound_fields length_originals_summaries [OF wf_loaded])
  have "loader_inv svc (length (ref_rag w)) ?L ?wt"
    by (rule loader_inv_loaded [OF img]) simp
  then have "loader_inv svc (length (ref_rag w)) (bound_loader svc ?L ?wt) (bound_world svc ?L ?wt)"
    by (rule loader_inv_bound [OF inj])
  then have "linked_from (length (ref_rag w)) (bound_loader svc ?L ?wt) (bound_world svc ?L ?wt)"
    by (simp add: loader_inv_def)
  from linked_from_card [OF this]
  show "card (dom (docDB (projr (fst (init svc env path w))))) = length (originals ?L)"
    using l by (simp add: i)
qed




section \<open>What is indexed\<close>

lemma init_page_contents:
  assumes "keys_present env" and "get_imagesb64 (partition_pdf svc path) \<noteq> []"
  shows "\<exists>s w'. init svc env path w = (Inr s, w')
          \<and> map page_content (drop (length (ref_rag w)) (ref_rag w')) =
              map (\<lambda>e. text_llm svc (prompt_text e)) (texts s)
              @ map (\<lambda>e. text_llm svc (prompt_text e)) (tables s)
              @ map (\<lambda>el. vision_llm svc (image_url el)) (images s)"
proof -
  let ?L = "loaded svc path"
  have "length (fresh_ids svc (uuid_drawn w) (length (originals ?L))) = length (summaries ?L)"
    by (simp add: length_originals_summaries [OF wf_loaded])
  then have "map page_content (mk_docs (fresh_ids svc (uuid_drawn w) (length (originals ?L))) (summaries ?L))
      = summaries ?L"
    by (rule contents_mk_docs)
  then show ?thesis
    unfolding init_result [OF assms]
    by (simp add: bound_fields summaries_def loaded_fields)
qed

text \<open>
  Claim C5, as amended. The constructor never inspects a summary. For a document with
  at least one image embedded in a composite text chunk it succeeds whatever the chat
  models return, and the page contents of the entries it adds to the collection are
  exactly the strings they returned for the texts, the tables and the images, in that
  order, the empty string included.
\<close>

theorem init_indexes_summaries_unvalidated:
  assumes "\<not> py_not (env ''TOGETHER_API_KEY'')" and "\<not> py_not (env ''GOOGLE_API_KEY'')"
    and "get_imagesb64 (partition_pdf svc path) \<noteq> []"
  shows "\<exists>s w'. init svc env path w = (Inr s, w')
          \<and> map page_content (drop (length (ref_rag w)) (ref_rag w')) =
              map (\<lambda>e. text_llm svc (prompt_text e)) (texts s)
              @ map (\<lambda>e. text_llm svc (prompt_text e)) (tables s)
              @ map (\<lambda>el. vision_llm svc (image_url el)) (images s)"
  using assms by (intro init_page_contents) (simp_all add: keys_present_def)

lemma blank_partition: "partition_pdf blank_svc p = ex_chunks"
  by (simp add: blank_svc_def ex_svc_def)

theorem init_indexes_summaries_unvalidated_witness:
  "\<not> py_not (ex_env ''TOGETHER_API_KEY'') \<and> \<not> py_not (ex_env ''GOOGLE_API_KEY'')
   \<and> get_imagesb64 (partition_pdf blank_svc ''doc.pdf'') \<noteq> []
   \<and> (\<exists>s w'. init blank_svc ex_env ''doc.pdf'' w0 = (Inr s, w')
          \<and> map page_content (drop (length (ref_rag w0)) (ref_rag w')) =
              map (\<lambda>e. text_llm blank_svc (prompt_text e)) (texts s)
              @ map (\<lambda>e. text_llm blank_svc (prompt_text e)) (tables s)
              @ map (\<lambda>el. vision_llm blank_svc (image_url el)) (images s))"
proof -
  have h: "\<not> py_not (ex_env ''TOGETHER_API_KEY'')" "\<not> py_not (ex_env ''GOOGLE_API_KEY'')"
    by (simp_all add: ex_env_def py_not_def)
  have i: "get_imagesb64 (partition_pdf blank_svc ''doc.pdf'') \<noteq> []"
    by (simp add: blank_partition ex_images)
  from init_indexes_summaries_unvalidated [OF h i, of w0] h i
  show ?thesis by blast
qed

theorem empty_summary_is_indexed:
  "\<not> isl (fst (init blank_svc ex_env ''doc.pdf'' w0))
   \<and> map page_content (ref_rag (snd (init blank_svc ex_env ''doc.pdf'' w0)))
       = ['''', '''', ''picture'']"
proof -
  have i: "get_imagesb64 (partition_pdf blank_svc ''doc.pdf'') \<noteq> []"
    by (simp add: blank_partition ex_images)
  from init_page_contents [OF keys_ex_env i, of w0]
  obtain s w' where s: "init blank_svc ex_env ''doc.pdf'' w0 = (Inr s, w')"
    and c: "map page_content (drop (length (ref_rag w0)) (ref_rag w')) =
              map (\<lambda>e. text_llm blank_svc (prompt_text e)) (texts s)
              @ map (\<lambda>e. text_llm blank_svc (prompt_text e)) (tables s)
              @ map (\<lambda>el. vision_llm blank_svc (image_url el)) (images s)"
    by blast
  have s': "s = bound_loader blank_svc (loaded blank_svc ''doc.pdf'')
                  (w0\<lparr>trace := trace w0 @ ingest_events blank_svc ''doc.pdf''\<rparr>)"
    using s unfolding init_result [OF keys_ex_env i] by simp
  have f: "texts s = [ex_chunks ! 0]" "tables s = [ex_chunks ! 1]" "images s = [Some ''aGk='']"
    unfolding s'
    by (simp_all add: bound_fields loaded_fields blank_partition ex_filters ex_images)
  have e: "ref_rag w0 = []" by (simp add: w0_def)
  show ?thesis
    using s c f e by (simp add: blank_svc_def ex_svc_def)
qed

lemma filter_composite_ingested:
  "filter (\<lambda>c. ingested c \<and> is_composite c) cs = filter is_composite cs"
  by (induction cs) (auto simp: is_composite_def ingested_def)

lemma filter_table_ingested:
  "filter (\<lambda>c. ingested c \<and> is_table c) cs = filter is_table cs"
  by (induction cs) (auto simp: is_table_def ingested_def)

lemma get_imagesb64_ingested:
  "get_imagesb64 (filter ingested cs) = get_imagesb64 cs"
  by (simp add: get_imagesb64_eq filter_composite_ingested)

lemma bind_block_chunks:
  "bind_block (svc\<lparr>partition_pdf := f\<rparr>) origs sums (self\<lparr>chunks := cs\<rparr>) w =
     (case bind_block svc origs sums self w of (e, s1, w1) \<Rightarrow> (e, s1\<lparr>chunks := cs\<rparr>, w1))"
  by (simp add: bind_block_def draw_ids_def add_documents_def split: sum.splits)

lemma bind_block_keeps:
  "bind_block svc origs sums self w = (e, s1, w1) \<Longrightarrow>
     tables s1 = tables self \<and> table_summaries s1 = table_summaries self
     \<and> images s1 = images self \<and> image_summaries s1 = image_summaries self"
  by (auto simp: bind_block_def draw_ids_def add_documents_def split: sum.splits if_splits)

lemma bind_data_chunks:
  "bind_data (svc\<lparr>partition_pdf := f\<rparr>) (self\<lparr>chunks := cs\<rparr>) w =
     (case bind_data svc self w of (e, s1, w1) \<Rightarrow> (e, s1\<lparr>chunks := cs\<rparr>, w1))"
proof -
  obtain e1 s1 w1 where b1:
    "bind_block svc (map Chunk (texts self)) (text_summaries self) self w = (e1, s1, w1)"
    by (cases "bind_block svc (map Chunk (texts self)) (text_summaries self) self w") auto
  have b1': "bind_block (svc\<lparr>partition_pdf := f\<rparr>) (map Chunk (texts self)) (text_summaries self)
               (self\<lparr>chunks := cs\<rparr>) w = (e1, s1\<lparr>chunks := cs\<rparr>, w1)"
    by (simp add: bind_block_chunks b1)
  show ?thesis
  proof (cases e1)
    case (Some e)
    then show ?thesis by (simp add: bind_data_def b1 b1')
  next
    case None
    obtain e2 s2 w2 where b2:
      "bind_block svc (map Chunk (tables s1)) (table_summaries s1) s1 w1 = (e2, s2, w2)"
      by (cases "bind_block svc (map Chunk (tables s1)) (table_summaries s1) s1 w1") auto
    have b2': "bind_block (svc\<lparr>partition_pdf := f\<rparr>) (map Chunk (tables s1)) (table_summaries s1)
               (s1\<lparr>chunks := cs\<rparr>) w1 = (e2, s2\<lparr>chunks := cs\<rparr>, w2)"
      by (simp add: bind_block_chunks b2)
    show ?thesis
    proof (cases "tables s1 = []")
      case True
      with None show ?thesis
        by (simp add: bind_data_def b1 b1' bind_block_chunks)
    next
      case False
      show ?thesis
      proof (cases e2)
        case (Some e)
        with None False show ?thesis by (simp add: bind_data_def b1 b1' b2 b2')
      next
        case n2: None
        with None False show ?thesis
          by (simp add: bind_data_def b1 b1' b2 b2' bind_block_chunks)
      qed
    qed
  qed
qed

text \<open>
  Claim C9. Removing from the partitioner's output every chunk whose printed type
  contains neither \<open>Table\<close> nor \<open>CompositeElement\<close> changes nothing but the stored
  \<open>chunks\<close> list: the same error or the same loader (same texts, tables, images,
  summaries and document store) and the same world (same model calls, same identifier
  draws, same collection) result. Such a chunk is therefore never summarised and
  never indexed.
\<close>

theorem ignored_chunks_leave_no_trace:
  "init (svc\<lparr>partition_pdf := (\<lambda>p. filter ingested (partition_pdf svc p))\<rparr>) env path w =
     (map_sum id (\<lambda>s. s\<lparr>chunks := filter ingested (chunks s)\<rparr>) (fst (init svc env path w)),
      snd (init svc env path w))"
proof (cases "keys_present env")
  case False
  then show ?thesis by (auto simp: init_def keys_present_def Let_def)
next
  case True
  let ?svc' = "svc\<lparr>partition_pdf := (\<lambda>p. filter ingested (partition_pdf svc p))\<rparr>"
  let ?wt = "w\<lparr>trace := trace w @ ingest_events svc path\<rparr>"
  have L: "loaded ?svc' path = (loaded svc path)\<lparr>chunks := filter ingested (partition_pdf svc path)\<rparr>"
    by (simp add: loaded_def Let_def filter_composite_ingested filter_table_ingested
        get_imagesb64_ingested)
  have E: "ingest_events ?svc' path = ingest_events svc path"
    by (simp add: ingest_events_def Let_def filter_composite_ingested filter_table_ingested
        get_imagesb64_ingested)
  obtain e s1 w1 where b: "bind_data svc (loaded svc path) ?wt = (e, s1, w1)"
    by (cases "bind_data svc (loaded svc path) ?wt") auto
  have c: "chunks s1 = partition_pdf svc path"
    using b
    by (auto simp: bind_data_def bind_block_def draw_ids_def add_documents_def loaded_fields
        split: sum.splits if_splits prod.splits option.splits)
  show ?thesis
    unfolding init_eq [OF True] L E bind_data_chunks b
    by (cases e) (simp_all add: c)
qed

theorem ignored_chunks_leave_no_trace_witness:
  "\<not> ingested (ex_chunks ! 2)
   \<and> init (ex_svc\<lparr>partition_pdf := (\<lambda>p. filter ingested (partition_pdf ex_svc p))\<rparr>) ex_env ''doc.pdf'' w0 =
     (map_sum id (\<lambda>s. s\<lparr>chunks := filter ingested (chunks s)\<rparr>) (fst (init ex_svc ex_env ''doc.pdf'' w0)),
      snd (init ex_svc ex_env ''doc.pdf'' w0))"
proof -
  have "\<not> ingested (ex_chunks ! 2)"
    by (simp add: ingested_def ex_chunks_def py_in_def sublist_Cons_right)
  with ignored_chunks_leave_no_trace [of ex_svc ex_env "''doc.pdf''" w0] show ?thesis by blast
qed

section \<open>Growth and freshness across index calls\<close>

lemma session_length:
  assumes "inj (uuid4 svc)" and "keys_present env"
    and "get_imagesb64 (partition_pdf svc path) \<noteq> []"
  shows "session svc env path n w = (Inr s, w') \<Longrightarrow>
         length (ref_rag w') = length (ref_rag w) + Suc n * length (originals (loaded svc path))"
proof (induction n arbitrary: s w')
  case 0
  then show ?case
    unfolding session_0 init_result [OF assms(2,3)]
    by (auto simp: bound_fields length_originals_summaries [OF wf_loaded])
next
  case (Suc n)
  from session_step [OF assms, of n w]
  obtain s1 w1 where s1: "session svc env path n w = (Inr s1, w1)"
    and s2: "session svc env path (Suc n) w = (Inr (bound_loader svc s1 w1), bound_world svc s1 w1)"
    and inv: "loader_inv svc (length (ref_rag w)) s1 w1"
    and same: "same_inputs s1 (loaded svc path)"
    by blast
  from inv have wf: "wf_loader s1" by (simp add: loader_inv_def)
  from Suc.prems s2 have "w' = bound_world svc s1 w1" by simp
  then have "length (ref_rag w') = length (ref_rag w1) + length (originals s1)"
    by (simp add: bound_fields length_originals_summaries [OF wf])
  then show ?case
    using Suc.IH [OF s1] same_inputs_originals [OF same] by simp
qed

text \<open>
  Claim C3, as amended. For a document with at least one image embedded in a
  composite text chunk, every index operation (the constructor, and each further
  \<open>bind_data\<close> call) adds to the collection and to the loader's document store exactly
  one entry per composite text chunk, one per table chunk and one per image embedded
  in a composite text chunk of the partitioner's output; when \<open>uuid.uuid4()\<close> never
  repeats, the earlier entries of both stores are kept unchanged.
\<close>

theorem index_growth_without_overwrite:
  assumes "inj (uuid4 svc)"
    and "\<not> py_not (env ''TOGETHER_API_KEY'')" and "\<not> py_not (env ''GOOGLE_API_KEY'')"
    and "get_imagesb64 (partition_pdf svc path) \<noteq> []"
  shows "\<exists>s1 w1 s2 w2 k.
       session svc env path n w = (Inr s1, w1)
     \<and> session svc env path (Suc n) w = (Inr s2, w2)
     \<and> texts s1 = filter (\<lambda>c. py_in ''CompositeElement'' (type_name c)) (partition_pdf svc path)
     \<and> tables s1 = filter (\<lambda>c. py_in ''Table'' (type_name c)) (partition_pdf svc path)
     \<and> images s1 = get_imagesb64 (partition_pdf svc path)
     \<and> k = length (texts s1) + length (tables s1) + length (images s1)
     \<and> length (ref_rag w1) = length (ref_rag w) + Suc n * k
     \<and> card (dom (docDB s1)) = Suc n * k
     \<and> length (ref_rag w2) = length (ref_rag w1) + k
     \<and> card (dom (docDB s2)) = card (dom (docDB s1)) + k
     \<and> take (length (ref_rag w1)) (ref_rag w2) = ref_rag w1
     \<and> (\<forall>i \<in> dom (docDB s1). docDB s2 i = docDB s1 i)"
proof -
  have keys: "keys_present env" using assms(2,3) by (simp add: keys_present_def)
  let ?L = "loaded svc path"
  let ?base = "length (ref_rag w)"
  from session_step [OF assms(1) keys assms(4), of n w]
  obtain s1 w1 where s1: "session svc env path n w = (Inr s1, w1)"
    and s2: "session svc env path (Suc n) w = (Inr (bound_loader svc s1 w1), bound_world svc s1 w1)"
    and inv: "loader_inv svc ?base s1 w1"
    and same: "same_inputs s1 ?L"
    by blast
  let ?s2 = "bound_loader svc s1 w1" and ?w2 = "bound_world svc s1 w1"
  from inv have wf: "wf_loader s1" and lk1: "linked_from ?base s1 w1"
    and kn: "ids_known svc s1 w1"
    by (simp_all add: loader_inv_def)
  have lk2: "linked_from ?base ?s2 ?w2"
    using loader_inv_bound [OF assms(1) inv] by (simp add: loader_inv_def)
  let ?k = "length (texts s1) + length (tables s1) + length (images s1)"
  have k: "length (originals ?L) = ?k"
    using same by (simp add: length_originals same_inputs_def)
  have f: "texts s1 = filter (\<lambda>c. py_in ''CompositeElement'' (type_name c)) (partition_pdf svc path)"
    "tables s1 = filter (\<lambda>c. py_in ''Table'' (type_name c)) (partition_pdf svc path)"
    "images s1 = get_imagesb64 (partition_pdf svc path)"
    using same
    by (simp_all add: same_inputs_def loaded_fields is_composite_def [abs_def] is_table_def [abs_def])
  have l1: "length (ref_rag w1) = ?base + Suc n * ?k"
    using session_length [OF assms(1) keys assms(4) s1] k by simp
  have l2: "length (ref_rag ?w2) = length (ref_rag w1) + ?k"
    using session_length [OF assms(1) keys assms(4) s2] l1 k by simp
  have c1: "card (dom (docDB s1)) = Suc n * ?k"
    using linked_from_card [OF lk1] l1 by simp
  have c2: "card (dom (docDB ?s2)) = card (dom (docDB s1)) + ?k"
    using linked_from_card [OF lk2] l1 l2 c1 by simp
  have pre: "take (length (ref_rag w1)) (ref_rag ?w2) = ref_rag w1"
    by (simp add: bound_fields)
  have disj: "dom (docDB s1) \<inter> set (fresh_ids svc (uuid_drawn w1) (length (originals s1))) = {}"
    using assms(1) kn unfolding ids_known_def by (rule fresh_ids_disjoint_known)
  have keep: "\<forall>i \<in> dom (docDB s1). docDB ?s2 i = docDB s1 i"
  proof
    fix i assume "i \<in> dom (docDB s1)"
    with disj have "i \<notin> set (fresh_ids svc (uuid_drawn w1) (length (originals s1)))" by blast
    then show "docDB ?s2 i = docDB s1 i" by (simp add: bound_fields)
  qed
  from s1 s2 f l1 l2 c1 c2 pre keep
  show ?thesis
    by (intro exI [of _ s1] exI [of _ w1] exI [of _ ?s2] exI [of _ ?w2] exI [of _ ?k]) simp
qed

theorem index_growth_without_overwrite_witness:
  "inj (uuid4 ex_svc)
   \<and> \<not> py_not (ex_env ''TOGETHER_API_KEY'') \<and> \<not> py_not (ex_env ''GOOGLE_API_KEY'')
   \<and> get_imagesb64 (partition_pdf ex_svc ''doc.pdf'') \<noteq> []
   \<and> (\<exists>s1 w1 s2 w2 k.
       session ex_svc ex_env ''doc.pdf'' 1 w0 = (Inr s1, w1)
     \<and> session ex_svc ex_env ''doc.pdf'' (Suc 1) w0 = (Inr s2, w2)
     \<and> texts s1 = filter (\<lambda>c. py_in ''CompositeElement'' (type_name c)) (partition_pdf ex_svc ''doc.pdf'')
     \<and> tables s1 = filter (\<lambda>c. py_in ''Table'' (type_name c)) (partition_pdf ex_svc ''doc.pdf'')
     \<and> images s1 = get_imagesb64 (partition_pdf ex_svc ''doc.pdf'')
     \<and> k = length (texts s1) + length (tables s1) + length (images s1)
     \<and> length (ref_rag w1) = length (ref_rag w0) + Suc 1 * k
     \<and> card (dom (docDB s1)) = Suc 1 * k
     \<and> length (ref_rag w2) = length (ref_rag w1) + k
     \<and> card (dom (docDB s2)) = card (dom (docDB s1)) + k
     \<and> take (length (ref_rag w1)) (ref_rag w2) = ref_rag w1
     \<and> (\<forall>i \<in> dom (docDB s1). docDB s2 i = docDB s1 i))"
proof -
  have h: "\<not> py_not (ex_env ''TOGETHER_API_KEY'')" "\<not> py_not (ex_env ''GOOGLE_API_KEY'')"
    by (simp_all add: ex_env_def py_not_def)
  from index_growth_without_overwrite [OF inj_ex_svc h ex_has_images, of 1 w0]
    inj_ex_svc h ex_has_images
  show ?thesis by blast
qed

theorem one_chunk_two_entries:
  "length (partition_pdf pic_svc ''doc.pdf'') = 1
   \<and> \<not> isl (fst (init pic_svc ex_env ''doc.pdf'' w0))
   \<and> length (ref_rag w0) = 0
   \<and> length (ref_rag (snd (init pic_svc ex_env ''doc.pdf'' w0))) = 2
   \<and> card (dom (docDB (projr (fst (init pic_svc ex_env ''doc.pdf'' w0))))) = 2"
proof -
  have p: "partition_pdf pic_svc ''doc.pdf'' = [pic_chunk]"
    by (simp add: pic_svc_def)
  have c: "is_composite pic_chunk" "\<not> is_table pic_chunk"
    by (simp_all add: is_composite_def is_table_def pic_chunk_def py_in_def sublist_Cons_right)
  have i: "get_imagesb64 [pic_chunk] = [Some ''aGk='']"
    by (simp add: get_imagesb64_def pic_chunk_def py_in_def sublist_Cons_right)
  have img: "get_imagesb64 (partition_pdf pic_svc ''doc.pdf'') \<noteq> []"
    by (simp add: p i)
  have inj: "inj (uuid4 pic_svc)" by (simp add: pic_svc_def ex_svc_def inj_seq_uuid)
  have l: "length (originals (loaded pic_svc ''doc.pdf'')) = 2"
    by (simp add: length_originals loaded_fields p c i)
  show ?thesis
    using init_counts [OF inj keys_ex_env img, of w0]
    by (simp add: p l w0_def)
qed

lemma world_ok_extend:
  assumes inj: "inj (uuid4 svc)" and ok: "world_ok svc w" and len: "length sums = k"
  shows "world_ok svc (w\<lparr>uuid_drawn := uuid_drawn w + k,
                        ref_rag := ref_rag w @ mk_docs (fresh_ids svc (uuid_drawn w) k) sums\<rparr>)"
proof -
  let ?ids = "fresh_ids svc (uuid_drawn w) k"
  from ok have d: "distinct (map doc_id (ref_rag w))"
    and kn: "set (map doc_id (ref_rag w)) \<subseteq> uuid4 svc ` {..< uuid_drawn w}"
    by (simp_all add: world_ok_def)
  have disj: "set (map doc_id (ref_rag w)) \<inter> set ?ids = {}"
    using inj kn by (rule fresh_ids_disjoint_known)
  have m: "map doc_id (mk_docs ?ids sums) = ?ids"
    using len by (simp add: doc_ids_mk_docs)
  show ?thesis
    unfolding world_ok_def
    using d disj distinct_fresh_ids [OF inj, of "uuid_drawn w" k]
      fresh_ids_known [of svc "uuid_drawn w" k] known_mono [OF kn, of k]
    by (simp add: m)
qed

lemma bind_block_world_ok:
  assumes inj: "inj (uuid4 svc)" and ok: "world_ok svc w" and len: "length sums = length origs"
  shows "world_ok svc (snd (snd (bind_block svc origs sums self w)))"
proof (cases "origs = []")
  case True
  with len have "sums = []" by simp
  with True ok show ?thesis by (simp add: bind_block_empty)
next
  case False
  show ?thesis
    unfolding bind_block_eq [OF len False]
    using world_ok_extend [OF inj ok len] by simp
qed

lemma bind_data_world_ok:
  assumes inj: "inj (uuid4 svc)" and wf: "wf_loader self" and ok: "world_ok svc w"
  shows "world_ok svc (snd (snd (bind_data svc self w)))"
proof -
  from wf have l: "length (text_summaries self) = length (map Chunk (texts self))"
    "length (table_summaries self) = length (map Chunk (tables self))"
    "length (image_summaries self) = length (map ImageB64 (images self))"
    by (simp_all add: wf_loader_def)
  obtain e1 s1 w1 where b1:
    "bind_block svc (map Chunk (texts self)) (text_summaries self) self w = (e1, s1, w1)"
    by (cases "bind_block svc (map Chunk (texts self)) (text_summaries self) self w") auto
  have ok1: "world_ok svc w1"
    using bind_block_world_ok [OF inj ok l(1), of self] by (simp add: b1)
  have k1: "tables s1 = tables self" "table_summaries s1 = table_summaries self"
    "images s1 = images self" "image_summaries s1 = image_summaries self"
    using bind_block_keeps [OF b1] by simp_all
  show ?thesis
  proof (cases e1)
    case (Some e)
    then show ?thesis by (simp add: bind_data_def b1 ok1)
  next
    case None
    obtain e2 s2 w2 where b2:
      "(if tables s1 \<noteq> []
        then bind_block svc (map Chunk (tables s1)) (table_summaries s1) s1 w1
        else (None, s1, w1)) = (e2, s2, w2)"
      by (cases "if tables s1 \<noteq> []
        then bind_block svc (map Chunk (tables s1)) (table_summaries s1) s1 w1
        else (None, s1, w1)") auto
    have ok2: "world_ok svc w2"
    proof (cases "tables s1 = []")
      case True
      with b2 ok1 show ?thesis by simp
    next
      case False
      with b2 have "bind_block svc (map Chunk (tables s1)) (table_summaries s1) s1 w1 = (e2, s2, w2)"
        by simp
      with bind_block_world_ok [OF inj ok1, of "table_summaries s1" "map Chunk (tables s1)" s1]
      show ?thesis using l(2) by (simp add: k1)
    qed
    have k2: "images s2 = images self" "image_summaries s2 = image_summaries self"
    proof -
      show "images s2 = images self"
        using b2 k1 bind_block_keeps [of svc "map Chunk (tables s1)" "table_summaries s1" s1 w1 e2 s2 w2]
        by (auto split: if_splits)
      show "image_summaries s2 = image_summaries self"
        using b2 k1 bind_block_keeps [of svc "map Chunk (tables s1)" "table_summaries s1" s1 w1 e2 s2 w2]
        by (auto split: if_splits)
    qed
    show ?thesis
    proof (cases e2)
      case (Some e)
      with None show ?thesis by (simp add: bind_data_def b1 b2 ok2)
    next
      case n2: None
      have "world_ok svc (snd (snd (bind_block svc (map ImageB64 (images s2)) (image_summaries s2) s2 w2)))"
        using l(3) by (intro bind_block_world_ok [OF inj ok2]) (simp add: k2)
      with None n2 show ?thesis by (simp add: bind_data_def b1 b2)
    qed
  qed
qed

lemma init_world_ok:
  assumes inj: "inj (uuid4 svc)" and ok: "world_ok svc w"
  shows "world_ok svc (snd (init svc env path w))"
proof (cases "keys_present env")
  case False
  from init_missing_key [OF False, of svc path w] ok show ?thesis by auto
next
  case True
  let ?wt = "w\<lparr>trace := trace w @ ingest_events svc path\<rparr>"
  have okt: "world_ok svc ?wt" using ok by (simp add: world_ok_def)
  obtain e s1 w1 where b: "bind_data svc (loaded svc path) ?wt = (e, s1, w1)"
    by (cases "bind_data svc (loaded svc path) ?wt") auto
  have "world_ok svc w1"
    using bind_data_world_ok [where self = "loaded svc path", OF inj wf_loaded okt] by (simp add: b)
  then show ?thesis
    unfolding init_eq [OF True] b by (cases e) simp_all
qed

text \<open>
  Claim C4. Take a collection whose identifiers are pairwise distinct and were drawn
  earlier (as in a process that has just started), and let \<open>uuid.uuid4()\<close> never
  repeat. Then after the constructor, whatever the document and whether or not the
  constructor raises, the identifiers of the collection are still pairwise distinct
  and drawn earlier, so the same holds after any number of constructors. When the
  keys are present and the document has at least one image embedded in a composite
  text chunk, the constructor and every further \<open>bind_data\<close> call succeed, and running
  \<open>bind_data\<close> once more on the same chunks appends one new entry per text, table and
  image (nothing is merged), with the same summaries; the identifiers of the new
  entries are disjoint from all earlier ones, the earlier entries are unchanged, and
  the new identifiers are added to the keys of the document store.
\<close>

theorem identifiers_fresh_across_index_calls:
  assumes "inj (uuid4 svc)" and "world_ok svc w"
  shows "distinct (map doc_id (ref_rag (snd (init svc env path w))))
     \<and> world_ok svc (snd (init svc env path w))
     \<and> (\<not> py_not (env ''TOGETHER_API_KEY'') \<and> \<not> py_not (env ''GOOGLE_API_KEY'')
          \<and> get_imagesb64 (partition_pdf svc path) \<noteq> [] \<longrightarrow>
         (\<exists>s1 w1 s2 w2 new.
             session svc env path n w = (Inr s1, w1)
           \<and> session svc env path (Suc n) w = (Inr s2, w2)
           \<and> ref_rag w2 = ref_rag w1 @ new
           \<and> length new = length (texts s1) + length (tables s1) + length (images s1)
           \<and> map page_content new = text_summaries s1 @ table_summaries s1 @ image_summaries s1
           \<and> distinct (map doc_id (ref_rag w2))
           \<and> set (map doc_id (ref_rag w1)) \<inter> set (map doc_id new) = {}
           \<and> dom (docDB s2) = dom (docDB s1) \<union> set (map doc_id new)
           \<and> world_ok svc w2))"
proof (intro conjI impI)
  show ok0: "world_ok svc (snd (init svc env path w))"
    by (rule init_world_ok [OF assms])
  then show "distinct (map doc_id (ref_rag (snd (init svc env path w))))"
    by (simp add: world_ok_def)
next
  assume h: "\<not> py_not (env ''TOGETHER_API_KEY'') \<and> \<not> py_not (env ''GOOGLE_API_KEY'')
          \<and> get_imagesb64 (partition_pdf svc path) \<noteq> []"
  then have keys: "keys_present env" and img: "get_imagesb64 (partition_pdf svc path) \<noteq> []"
    by (simp_all add: keys_present_def)
  let ?base = "length (ref_rag w)"
  from session_step [OF assms(1) keys img, of n w] assms(2)
  obtain s1 w1 where s1: "session svc env path n w = (Inr s1, w1)"
    and s2: "session svc env path (Suc n) w = (Inr (bound_loader svc s1 w1), bound_world svc s1 w1)"
    and inv: "loader_inv svc ?base s1 w1"
    and ok1: "world_ok svc w1"
    by blast
  let ?s2 = "bound_loader svc s1 w1" and ?w2 = "bound_world svc s1 w1"
  from inv have wf: "wf_loader s1" by (simp add: loader_inv_def)
  have ok2: "world_ok svc ?w2" by (rule world_ok_bound [OF assms(1) wf ok1])
  let ?ids = "fresh_ids svc (uuid_drawn w1) (length (originals s1))"
  let ?new = "mk_docs ?ids (summaries s1)"
  have len: "length ?ids = length (summaries s1)"
    by (simp add: length_originals_summaries [OF wf])
  have a: "ref_rag ?w2 = ref_rag w1 @ ?new" by (simp add: bound_fields)
  have b: "length ?new = length (texts s1) + length (tables s1) + length (images s1)"
    by (simp add: length_originals_summaries [OF wf] length_originals)
  have c: "map page_content ?new = text_summaries s1 @ table_summaries s1 @ image_summaries s1"
    using contents_mk_docs [OF len] by (simp add: summaries_def)
  have d: "distinct (map doc_id (ref_rag ?w2))" using ok2 by (simp add: world_ok_def)
  have e: "set (map doc_id (ref_rag w1)) \<inter> set (map doc_id ?new) = {}"
    using d unfolding a by simp
  have f: "dom (docDB ?s2) = dom (docDB s1) \<union> set (map doc_id ?new)"
    by (auto simp: bound_fields new_ids_bound [OF wf])
  from s1 s2 a b c d e f ok2
  show "\<exists>s1 w1 s2 w2 new.
             session svc env path n w = (Inr s1, w1)
           \<and> session svc env path (Suc n) w = (Inr s2, w2)
           \<and> ref_rag w2 = ref_rag w1 @ new
           \<and> length new = length (texts s1) + length (tables s1) + length (images s1)
           \<and> map page_content new = text_summaries s1 @ table_summaries s1 @ image_summaries s1
           \<and> distinct (map doc_id (ref_rag w2))
           \<and> set (map doc_id (ref_rag w1)) \<inter> set (map doc_id new) = {}
           \<and> dom (docDB s2) = dom (docDB s1) \<union> set (map doc_id new)
           \<and> world_ok svc w2"
    by (intro exI [of _ s1] exI [of _ w1] exI [of _ ?s2] exI [of _ ?w2] exI [of _ ?new]) simp
qed

theorem identifiers_fresh_across_index_calls_witness:
  "inj (uuid4 ex_svc) \<and> world_ok ex_svc w0
   \<and> \<not> py_not (ex_env ''TOGETHER_API_KEY'') \<and> \<not> py_not (ex_env ''GOOGLE_API_KEY'')
   \<and> get_imagesb64 (partition_pdf ex_svc ''doc.pdf'') \<noteq> []
   \<and> distinct (map doc_id (ref_rag (snd (init ex_svc ex_env ''doc.pdf'' w0))))
   \<and> (\<exists>s1 w1 s2 w2 new.
       session ex_svc ex_env ''doc.pdf'' 0 w0 = (Inr s1, w1)
     \<and> session ex_svc ex_env ''doc.pdf'' (Suc 0) w0 = (Inr s2, w2)
     \<and> ref_rag w2 = ref_rag w1 @ new
     \<and> length new = length (texts s1) + length (tables s1) + length (images s1)
     \<and> map page_content new = text_summaries s1 @ table_summaries s1 @ image_summaries s1
     \<and> distinct (map doc_id (ref_rag w2))
     \<and> set (map doc_id (ref_rag w1)) \<inter> set (map doc_id new) = {}
     \<and> dom (docDB s2) = dom (docDB s1) \<union> set (map doc_id new)
     \<and> world_ok ex_svc w2)"
proof -
  have h: "\<not> py_not (ex_env ''TOGETHER_API_KEY'')" "\<not> py_not (ex_env ''GOOGLE_API_KEY'')"
    by (simp_all add: ex_env_def py_not_def)
  have ok: "world_ok ex_svc w0" by (simp add: world_ok_def w0_def)
  from identifiers_fresh_across_index_calls [OF inj_ex_svc ok, of ex_env "''doc.pdf''" 0]
    inj_ex_svc h ex_has_images ok
  show ?thesis by blast
qed

section \<open>Order of the summarisation calls\<close>











section \<open>Entries and their originals\<close>











section \<open>Properties of search\<close>






















end
